theory Spec2Isabelle
  imports Complex_Main "HOL-Library.Word"
begin

unbundle bit_operations_syntax

section \<open>Data model (types.ts)\<close>

text \<open>
  Timestamps and durations are JavaScript numbers holding integral milliseconds
  (\<^verbatim>\<open>Date.now()\<close>, \<^verbatim>\<open>ttl\<close>); they are modelled as \<open>int\<close>. Every layer
  operation receives the clock reading \<open>now\<close> as an argument: all calls of
  \<^verbatim>\<open>Date.now()\<close> inside one synchronous layer call are taken to give the same
  reading.

  A cached value is of any type \<open>'v\<close>; \<^verbatim>\<open>null\<close>, the miss sentinel of
  \<^verbatim>\<open>get\<close>, is \<open>None\<close>, so the values of \<open>'v\<close> are the non-null ones.
\<close>

record 'v CacheEntry =
  val :: 'v
  expiresAt :: int
  createdAt :: int
  accessCount :: nat
  lastAccessed :: int
  tags :: "string list option"

record CacheOptions =
  ttl :: "int option"
  opt_tags :: "string list option"

text \<open>The default argument \<^verbatim>\<open>options: CacheOptions = {}\<close>.\<close>

definition no_options :: CacheOptions where
  "no_options = \<lparr>ttl = None, opt_tags = None\<rparr>"

datatype InvalidationType = TTL | LRU | LFU | Manual

text \<open>
  \<^verbatim>\<open>LayerStats\<close>. The field \<^verbatim>\<open>avgAccessTime\<close> and the sample window behind it
  hold \<^verbatim>\<open>performance.now()\<close> differences, real-time measurements that no
  operation below reads; they are left out.
\<close>

record LayerStats =
  hits :: nat
  misses :: nat
  st_size :: nat

definition LayerStats_init :: LayerStats where
  "LayerStats_init = \<lparr>hits = 0, misses = 0, st_size = 0\<rparr>"

text \<open>
  \<^verbatim>\<open>options.ttl || this.defaultTTL\<close>: the left operand is falsy when it is
  \<^verbatim>\<open>undefined\<close> or \<open>0\<close>.
\<close>

definition effective_ttl :: "CacheOptions \<Rightarrow> int \<Rightarrow> int" where
  "effective_ttl options defaultTTL =
     (case ttl options of
        None \<Rightarrow> defaultTTL
      | Some t \<Rightarrow> if t = 0 then defaultTTL else t)"

text \<open>The entry literal built by the \<^verbatim>\<open>set\<close> of every layer.\<close>

definition new_entry :: "'v \<Rightarrow> CacheOptions \<Rightarrow> int \<Rightarrow> int \<Rightarrow> 'v CacheEntry" where
  "new_entry v options defaultTTL now =
     \<lparr>val = v,
      expiresAt = now + effective_ttl options defaultTTL,
      createdAt = now,
      accessCount = 0,
      lastAccessed = now,
      tags = opt_tags options\<rparr>"

text \<open>\<^verbatim>\<open>entry.tags?.includes(tag)\<close>\<close>

definition tags_include :: "'v CacheEntry \<Rightarrow> string \<Rightarrow> bool" where
  "tags_include entry tag = (case tags entry of None \<Rightarrow> False | Some ts \<Rightarrow> tag \<in> set ts)"

section \<open>The JavaScript \<^verbatim>\<open>Map\<close>\<close>

text \<open>
  A \<^verbatim>\<open>Map\<close> iterates in insertion order, and the eviction scans depend on that
  order, so it is an association list: \<^verbatim>\<open>set\<close> on a resident key replaces the
  value in place, on a new key appends; \<^verbatim>\<open>delete\<close> reports whether the key was
  resident.
\<close>

type_synonym ('k, 'e) js_map = "('k \<times> 'e) list"

fun Map_get :: "('k, 'e) js_map \<Rightarrow> 'k \<Rightarrow> 'e option" where
  "Map_get [] k = None"
| "Map_get ((k', e) # rest) k = (if k' = k then Some e else Map_get rest k)"

definition Map_has :: "('k, 'e) js_map \<Rightarrow> 'k \<Rightarrow> bool" where
  "Map_has m k = (Map_get m k \<noteq> None)"

fun Map_set :: "('k, 'e) js_map \<Rightarrow> 'k \<Rightarrow> 'e \<Rightarrow> ('k, 'e) js_map" where
  "Map_set [] k e = [(k, e)]"
| "Map_set ((k', e') # rest) k e =
     (if k' = k then (k, e) # rest else (k', e') # Map_set rest k e)"

fun Map_delete :: "('k, 'e) js_map \<Rightarrow> 'k \<Rightarrow> ('k, 'e) js_map" where
  "Map_delete [] k = []"
| "Map_delete ((k', e) # rest) k =
     (if k' = k then Map_delete rest k else (k', e) # Map_delete rest k)"

section \<open>MemoryLayer\<close>

record 'v MemoryLayer =
  cache :: "(string, 'v CacheEntry) js_map"
  stats :: LayerStats
  maxSize :: int
  defaultTTL :: int
  invalidation :: InvalidationType

definition MemoryLayer_new :: "int \<Rightarrow> int \<Rightarrow> InvalidationType \<Rightarrow> 'v MemoryLayer" where
  "MemoryLayer_new maxSize' defaultTTL' invalidation' =
     \<lparr>cache = [], stats = LayerStats_init, maxSize = maxSize',
      defaultTTL = defaultTTL', invalidation = invalidation'\<rparr>"

definition MemoryLayer_get :: "string \<Rightarrow> int \<Rightarrow> 'v MemoryLayer \<Rightarrow> 'v option \<times> 'v MemoryLayer" where
  "MemoryLayer_get key now m =
     (case Map_get (cache m) key of
        None \<Rightarrow> (None, m\<lparr>stats := (stats m)\<lparr>misses := misses (stats m) + 1\<rparr>\<rparr>)
      | Some entry \<Rightarrow>
          if expiresAt entry < now
          then (None, m\<lparr>cache := Map_delete (cache m) key,
                         stats := (stats m)\<lparr>misses := misses (stats m) + 1\<rparr>\<rparr>)
          else (Some (val entry),
                m\<lparr>cache := Map_set (cache m) key
                               (entry\<lparr>accessCount := accessCount entry + 1, lastAccessed := now\<rparr>),
                  stats := (stats m)\<lparr>hits := hits (stats m) + 1\<rparr>\<rparr>))"

text \<open>
  The scans of \<^verbatim>\<open>evictLRU\<close> and \<^verbatim>\<open>evictLFU\<close>. The running minimum starts
  at \<^verbatim>\<open>Infinity\<close>, which is \<open>None\<close> here: every number is below it.
\<close>

fun below :: "'a::linorder \<Rightarrow> 'a option \<Rightarrow> bool" where
  "below x None = True"
| "below x (Some y) = (x < y)"

fun evictLRU_loop ::
  "(string, 'v CacheEntry) js_map \<Rightarrow> int option \<Rightarrow> string option \<Rightarrow> string option" where
  "evictLRU_loop [] oldest keyToEvict = keyToEvict"
| "evictLRU_loop ((key, entry) # rest) oldest keyToEvict =
     (if below (lastAccessed entry) oldest
      then evictLRU_loop rest (Some (lastAccessed entry)) (Some key)
      else evictLRU_loop rest oldest keyToEvict)"

definition evictLRU :: "'v MemoryLayer \<Rightarrow> string option" where
  "evictLRU m = evictLRU_loop (cache m) None None"

fun evictLFU_loop ::
  "(string, 'v CacheEntry) js_map \<Rightarrow> nat option \<Rightarrow> string option \<Rightarrow> string option" where
  "evictLFU_loop [] lowest keyToEvict = keyToEvict"
| "evictLFU_loop ((key, entry) # rest) lowest keyToEvict =
     (if below (accessCount entry) lowest
      then evictLFU_loop rest (Some (accessCount entry)) (Some key)
      else evictLFU_loop rest lowest keyToEvict)"

definition evictLFU :: "'v MemoryLayer \<Rightarrow> string option" where
  "evictLFU m = evictLFU_loop (cache m) None None"

text \<open>The \<^verbatim>\<open>switch\<close> of \<^verbatim>\<open>evict\<close>: the key it selects.\<close>

definition evict_select :: "'v MemoryLayer \<Rightarrow> string option" where
  "evict_select m =
     (case invalidation m of
        LRU \<Rightarrow> evictLRU m
      | LFU \<Rightarrow> evictLFU m
      | _ \<Rightarrow> evictLRU m)"

text \<open>
  \<^verbatim>\<open>if (keyToEvict) this.cache.delete(keyToEvict)\<close>: the test is for truthiness,
  and the empty string is falsy like \<^verbatim>\<open>null\<close>.
\<close>

definition evict :: "'v MemoryLayer \<Rightarrow> 'v MemoryLayer" where
  "evict m =
     (if length (cache m) = 0 then m
      else (case evict_select m of
              None \<Rightarrow> m
            | Some keyToEvict \<Rightarrow>
                if keyToEvict \<noteq> [] then m\<lparr>cache := Map_delete (cache m) keyToEvict\<rparr>
                else m))"

definition MemoryLayer_set ::
  "string \<Rightarrow> 'v \<Rightarrow> CacheOptions \<Rightarrow> int \<Rightarrow> 'v MemoryLayer \<Rightarrow> 'v MemoryLayer" where
  "MemoryLayer_set key v options now m =
     (let m1 = (if int (length (cache m)) \<ge> maxSize m \<and> \<not> Map_has (cache m) key
                then evict m else m);
          entry = new_entry v options (defaultTTL m1) now;
          cache' = Map_set (cache m1) key entry
      in m1\<lparr>cache := cache', stats := (stats m1)\<lparr>st_size := length cache'\<rparr>\<rparr>)"

definition MemoryLayer_delete :: "string \<Rightarrow> 'v MemoryLayer \<Rightarrow> bool \<times> 'v MemoryLayer" where
  "MemoryLayer_delete key m =
     (let result = Map_has (cache m) key;
          cache' = Map_delete (cache m) key
      in (result, m\<lparr>cache := cache', stats := (stats m)\<lparr>st_size := length cache'\<rparr>\<rparr>))"

definition MemoryLayer_has :: "string \<Rightarrow> int \<Rightarrow> 'v MemoryLayer \<Rightarrow> bool \<times> 'v MemoryLayer" where
  "MemoryLayer_has key now m =
     (case Map_get (cache m) key of
        None \<Rightarrow> (False, m)
      | Some entry \<Rightarrow>
          if expiresAt entry < now then (False, m\<lparr>cache := Map_delete (cache m) key\<rparr>)
          else (True, m))"

text \<open>
  The loop of \<^verbatim>\<open>deleteByTag\<close> walks the entries of the map and deletes the
  tagged ones from it as it goes.
\<close>

fun deleteByTag_loop ::
  "(string \<times> 'v CacheEntry) list \<Rightarrow> string \<Rightarrow> (string, 'v CacheEntry) js_map \<Rightarrow> nat
     \<Rightarrow> nat \<times> (string, 'v CacheEntry) js_map" where
  "deleteByTag_loop [] tag c count = (count, c)"
| "deleteByTag_loop ((key, entry) # rest) tag c count =
     (if tags_include entry tag
      then deleteByTag_loop rest tag (Map_delete c key) (count + 1)
      else deleteByTag_loop rest tag c count)"

definition MemoryLayer_deleteByTag :: "string \<Rightarrow> 'v MemoryLayer \<Rightarrow> nat \<times> 'v MemoryLayer" where
  "MemoryLayer_deleteByTag tag m =
     (case deleteByTag_loop (cache m) tag (cache m) 0 of
        (count, cache') \<Rightarrow>
          (count, m\<lparr>cache := cache', stats := (stats m)\<lparr>st_size := length cache'\<rparr>\<rparr>))"

section \<open>FileLayer\<close>

text \<open>
  \<^verbatim>\<open>hashKey\<close>: \<^verbatim>\<open>hash = ((hash << 5) - hash) + char; hash = hash & hash\<close> keeps
  a signed 32-bit integer, so the arithmetic is that of \<open>32 word\<close>, and
  \<^verbatim>\<open>Math.abs\<close> takes the magnitude of the signed reading. The file of a key is
  named by the base-36 numeral of that number (with the directory before and
  \<^verbatim>\<open>.json\<close> after it), an injective rendering; the model names the file by the
  number itself.
\<close>

definition hashKey :: "string \<Rightarrow> nat" where
  "hashKey key =
     nat \<bar>sint (foldl (\<lambda>hash c. (push_bit 5 hash - hash) + of_nat (of_char c)) (0 :: 32 word) key)\<bar>"

text \<open>
  The file system is an external collaborator. The field \<open>fs\<close> is \<open>None\<close> when
  \<^verbatim>\<open>this.fs\<close> is undefined (no Node file system), and otherwise holds the
  content of the cache directory: the records written by this layer, by file name, each
  the entry that \<^verbatim>\<open>JSON.parse\<close> reads back from what \<^verbatim>\<open>JSON.stringify\<close> wrote.
  Reading, unlinking or accessing a file that does not exist throws, and the layer
  catches it; no other I/O failure is modelled.
\<close>

record 'v FileLayer =
  file_stats :: LayerStats
  file_defaultTTL :: int
  fs :: "(nat, 'v CacheEntry) js_map option"

definition FileLayer_new :: "bool \<Rightarrow> int \<Rightarrow> 'v FileLayer" where
  "FileLayer_new isNode defaultTTL' =
     \<lparr>file_stats = LayerStats_init, file_defaultTTL = defaultTTL',
      fs = (if isNode then Some [] else None)\<rparr>"

definition FileLayer_delete :: "string \<Rightarrow> 'v FileLayer \<Rightarrow> bool \<times> 'v FileLayer" where
  "FileLayer_delete key f =
     (case fs f of
        None \<Rightarrow> (False, f)
      | Some files \<Rightarrow>
          if Map_has files (hashKey key)
          then (True, f\<lparr>fs := Some (Map_delete files (hashKey key))\<rparr>)
          else (False, f))"

definition FileLayer_get :: "string \<Rightarrow> int \<Rightarrow> 'v FileLayer \<Rightarrow> 'v option \<times> 'v FileLayer" where
  "FileLayer_get key now f =
     (case fs f of
        None \<Rightarrow> (None, f)
      | Some files \<Rightarrow>
          (case Map_get files (hashKey key) of
             None \<Rightarrow> (None, f\<lparr>file_stats := (file_stats f)\<lparr>misses := misses (file_stats f) + 1\<rparr>\<rparr>)
           | Some entry \<Rightarrow>
               if expiresAt entry < now
               then (let f1 = snd (FileLayer_delete key f)
                     in (None, f1\<lparr>file_stats := (file_stats f1)\<lparr>misses := misses (file_stats f1) + 1\<rparr>\<rparr>))
               else (Some (val entry),
                     f\<lparr>file_stats := (file_stats f)\<lparr>hits := hits (file_stats f) + 1\<rparr>\<rparr>)))"

definition FileLayer_set ::
  "string \<Rightarrow> 'v \<Rightarrow> CacheOptions \<Rightarrow> int \<Rightarrow> 'v FileLayer \<Rightarrow> 'v FileLayer" where
  "FileLayer_set key v options now f =
     (case fs f of
        None \<Rightarrow> f
      | Some files \<Rightarrow>
          f\<lparr>fs := Some (Map_set files (hashKey key) (new_entry v options (file_defaultTTL f) now))\<rparr>)"

definition FileLayer_has :: "string \<Rightarrow> 'v FileLayer \<Rightarrow> bool" where
  "FileLayer_has key f =
     (case fs f of
        None \<Rightarrow> False
      | Some files \<Rightarrow> Map_has files (hashKey key))"

fun file_deleteByTag_loop ::
  "(nat \<times> 'v CacheEntry) list \<Rightarrow> string \<Rightarrow> (nat, 'v CacheEntry) js_map \<Rightarrow> nat
     \<Rightarrow> nat \<times> (nat, 'v CacheEntry) js_map" where
  "file_deleteByTag_loop [] tag files count = (count, files)"
| "file_deleteByTag_loop ((file, listed) # rest) tag files count =
     (case Map_get files file of
        None \<Rightarrow> (count, files)
      | Some entry \<Rightarrow>
          if tags_include entry tag
          then file_deleteByTag_loop rest tag (Map_delete files file) (count + 1)
          else file_deleteByTag_loop rest tag files count)"

definition FileLayer_deleteByTag :: "string \<Rightarrow> 'v FileLayer \<Rightarrow> nat \<times> 'v FileLayer" where
  "FileLayer_deleteByTag tag f =
     (case fs f of
        None \<Rightarrow> (0, f)
      | Some files \<Rightarrow>
          (case file_deleteByTag_loop files tag files 0 of
             (count, files') \<Rightarrow> (count, f\<lparr>fs := Some files'\<rparr>)))"

section \<open>RedisLayer\<close>

text \<open>
  The Redis client is an external collaborator. It is modelled as a reliable server
  with one keyspace: a key holds a string (here the entry whose JSON text it is)
  together with the deadline that \<^verbatim>\<open>PX\<close> gave it, or a set of members. A key
  past its deadline is gone. A command fails (the promise rejects, and the layer
  catches it) when it meets a value of the wrong kind, or when \<^verbatim>\<open>SET ... PX\<close>
  is given a duration that is not positive; a failed command is \<open>None\<close>.
\<close>

datatype 'v redis_val = RString "'v CacheEntry" int | RSet "string list"

type_synonym 'v redis_db = "(string, 'v redis_val) js_map"

definition redis_live :: "'v redis_db \<Rightarrow> string \<Rightarrow> int \<Rightarrow> 'v redis_val option" where
  "redis_live db k now =
     (case Map_get db k of
        Some (RString e deadline) \<Rightarrow> if deadline < now then None else Some (RString e deadline)
      | r \<Rightarrow> r)"

definition client_get :: "'v redis_db \<Rightarrow> string \<Rightarrow> int \<Rightarrow> 'v CacheEntry option option" where
  "client_get db k now =
     (case redis_live db k now of
        None \<Rightarrow> Some None
      | Some (RString e deadline) \<Rightarrow> Some (Some e)
      | Some (RSet members) \<Rightarrow> None)"

definition client_set_px ::
  "'v redis_db \<Rightarrow> string \<Rightarrow> 'v CacheEntry \<Rightarrow> int \<Rightarrow> int \<Rightarrow> 'v redis_db option" where
  "client_set_px db k e px now =
     (if px \<le> 0 then None else Some (Map_set db k (RString e (now + px))))"

definition client_sadd :: "'v redis_db \<Rightarrow> string \<Rightarrow> string \<Rightarrow> int \<Rightarrow> 'v redis_db option" where
  "client_sadd db k member now =
     (case redis_live db k now of
        None \<Rightarrow> Some (Map_set db k (RSet [member]))
      | Some (RSet members) \<Rightarrow>
          Some (Map_set db k (RSet (if member \<in> set members then members else members @ [member])))
      | Some (RString e deadline) \<Rightarrow> None)"

definition client_smembers :: "'v redis_db \<Rightarrow> string \<Rightarrow> int \<Rightarrow> string list option" where
  "client_smembers db k now =
     (case redis_live db k now of
        None \<Rightarrow> Some []
      | Some (RSet members) \<Rightarrow> Some members
      | Some (RString e deadline) \<Rightarrow> None)"

fun client_del :: "'v redis_db \<Rightarrow> string list \<Rightarrow> int \<Rightarrow> nat \<times> 'v redis_db" where
  "client_del db [] now = (0, db)"
| "client_del db (k # ks) now =
     (case client_del (Map_delete db k) ks now of
        (n, db') \<Rightarrow> ((if redis_live db k now \<noteq> None then 1 else 0) + n, db'))"

definition client_exists :: "'v redis_db \<Rightarrow> string \<Rightarrow> int \<Rightarrow> nat" where
  "client_exists db k now = (if redis_live db k now \<noteq> None then 1 else 0)"

record 'v RedisLayer =
  client :: "'v redis_db"
  redis_stats :: LayerStats
  redis_defaultTTL :: int
  prefix :: string

definition RedisLayer_new :: "'v redis_db \<Rightarrow> int \<Rightarrow> 'v RedisLayer" where
  "RedisLayer_new client' defaultTTL' =
     \<lparr>client = client', redis_stats = LayerStats_init, redis_defaultTTL = defaultTTL',
      prefix = ''cache:''\<rparr>"

definition getKey :: "'v RedisLayer \<Rightarrow> string \<Rightarrow> string" where
  "getKey r key = prefix r @ key"

definition RedisLayer_delete :: "string \<Rightarrow> int \<Rightarrow> 'v RedisLayer \<Rightarrow> bool \<times> 'v RedisLayer" where
  "RedisLayer_delete key now r =
     (case client_del (client r) [getKey r key] now of
        (result, db') \<Rightarrow> (result > 0, r\<lparr>client := db'\<rparr>))"

definition RedisLayer_get :: "string \<Rightarrow> int \<Rightarrow> 'v RedisLayer \<Rightarrow> 'v option \<times> 'v RedisLayer" where
  "RedisLayer_get key now r =
     (case client_get (client r) (getKey r key) now of
        None \<Rightarrow> (None, r\<lparr>redis_stats := (redis_stats r)\<lparr>misses := misses (redis_stats r) + 1\<rparr>\<rparr>)
      | Some None \<Rightarrow> (None, r\<lparr>redis_stats := (redis_stats r)\<lparr>misses := misses (redis_stats r) + 1\<rparr>\<rparr>)
      | Some (Some entry) \<Rightarrow>
          if expiresAt entry < now
          then (let r1 = snd (RedisLayer_delete key now r)
                in (None, r1\<lparr>redis_stats := (redis_stats r1)\<lparr>misses := misses (redis_stats r1) + 1\<rparr>\<rparr>))
          else (Some (val entry),
                r\<lparr>redis_stats := (redis_stats r)\<lparr>hits := hits (redis_stats r) + 1\<rparr>\<rparr>))"

text \<open>The loop over \<^verbatim>\<open>options.tags\<close>; a failing \<^verbatim>\<open>sadd\<close> ends it.\<close>

fun sadd_loop :: "string list \<Rightarrow> string \<Rightarrow> string \<Rightarrow> int \<Rightarrow> 'v redis_db \<Rightarrow> 'v redis_db" where
  "sadd_loop [] pre key now db = db"
| "sadd_loop (tag # rest) pre key now db =
     (case client_sadd db (pre @ ''tag:'' @ tag) key now of
        None \<Rightarrow> db
      | Some db' \<Rightarrow> sadd_loop rest pre key now db')"

definition RedisLayer_set ::
  "string \<Rightarrow> 'v \<Rightarrow> CacheOptions \<Rightarrow> int \<Rightarrow> 'v RedisLayer \<Rightarrow> 'v RedisLayer" where
  "RedisLayer_set key v options now r =
     (let ttl' = effective_ttl options (redis_defaultTTL r);
          entry = new_entry v options (redis_defaultTTL r) now
      in case client_set_px (client r) (getKey r key) entry ttl' now of
           None \<Rightarrow> r
         | Some db1 \<Rightarrow>
             (case opt_tags options of
                None \<Rightarrow> r\<lparr>client := db1\<rparr>
              | Some ts \<Rightarrow> r\<lparr>client := sadd_loop ts (prefix r) key now db1\<rparr>))"

definition RedisLayer_has :: "string \<Rightarrow> int \<Rightarrow> 'v RedisLayer \<Rightarrow> bool" where
  "RedisLayer_has key now r = (client_exists (client r) (getKey r key) now = 1)"

definition RedisLayer_deleteByTag :: "string \<Rightarrow> int \<Rightarrow> 'v RedisLayer \<Rightarrow> nat \<times> 'v RedisLayer" where
  "RedisLayer_deleteByTag tag now r =
     (case client_smembers (client r) (prefix r @ ''tag:'' @ tag) now of
        None \<Rightarrow> (0, r)
      | Some keys \<Rightarrow>
          if length keys = 0 then (0, r)
          else (let db1 = snd (client_del (client r) (map (getKey r) keys) now);
                    db2 = snd (client_del db1 [prefix r @ ''tag:'' @ tag] now)
                in (length keys, r\<lparr>client := db2\<rparr>)))"

section \<open>The layer contract\<close>

text \<open>
  \<^verbatim>\<open>private layers: CacheLayer[]\<close> holds objects of the three layer classes; a
  method call on an element dispatches on its class.
\<close>

datatype 'v CacheLayer = Memory "'v MemoryLayer" | Redis "'v RedisLayer" | File "'v FileLayer"

definition CacheLayer_get :: "string \<Rightarrow> int \<Rightarrow> 'v CacheLayer \<Rightarrow> 'v option \<times> 'v CacheLayer" where
  "CacheLayer_get key now layer =
     (case layer of
        Memory m \<Rightarrow> (case MemoryLayer_get key now m of (value, m') \<Rightarrow> (value, Memory m'))
      | Redis r \<Rightarrow> (case RedisLayer_get key now r of (value, r') \<Rightarrow> (value, Redis r'))
      | File f \<Rightarrow> (case FileLayer_get key now f of (value, f') \<Rightarrow> (value, File f')))"

definition CacheLayer_set ::
  "string \<Rightarrow> 'v \<Rightarrow> CacheOptions \<Rightarrow> int \<Rightarrow> 'v CacheLayer \<Rightarrow> 'v CacheLayer" where
  "CacheLayer_set key v options now layer =
     (case layer of
        Memory m \<Rightarrow> Memory (MemoryLayer_set key v options now m)
      | Redis r \<Rightarrow> Redis (RedisLayer_set key v options now r)
      | File f \<Rightarrow> File (FileLayer_set key v options now f))"

definition CacheLayer_delete :: "string \<Rightarrow> int \<Rightarrow> 'v CacheLayer \<Rightarrow> bool \<times> 'v CacheLayer" where
  "CacheLayer_delete key now layer =
     (case layer of
        Memory m \<Rightarrow> (case MemoryLayer_delete key m of (result, m') \<Rightarrow> (result, Memory m'))
      | Redis r \<Rightarrow> (case RedisLayer_delete key now r of (result, r') \<Rightarrow> (result, Redis r'))
      | File f \<Rightarrow> (case FileLayer_delete key f of (result, f') \<Rightarrow> (result, File f')))"

definition CacheLayer_has :: "string \<Rightarrow> int \<Rightarrow> 'v CacheLayer \<Rightarrow> bool \<times> 'v CacheLayer" where
  "CacheLayer_has key now layer =
     (case layer of
        Memory m \<Rightarrow> (case MemoryLayer_has key now m of (result, m') \<Rightarrow> (result, Memory m'))
      | Redis r \<Rightarrow> (RedisLayer_has key now r, Redis r)
      | File f \<Rightarrow> (FileLayer_has key f, File f))"

text \<open>
  \<^verbatim>\<open>'deleteByTag' in layer && typeof layer.deleteByTag === 'function'\<close>: the
  method is not part of the \<^verbatim>\<open>CacheLayer\<close> interface, and the result is \<open>None\<close>
  for a layer without it. Each of the three classes has it.
\<close>

definition CacheLayer_deleteByTag ::
  "string \<Rightarrow> int \<Rightarrow> 'v CacheLayer \<Rightarrow> (nat \<times> 'v CacheLayer) option" where
  "CacheLayer_deleteByTag tag now layer =
     (case layer of
        Memory m \<Rightarrow> (case MemoryLayer_deleteByTag tag m of (deleted, m') \<Rightarrow> Some (deleted, Memory m'))
      | Redis r \<Rightarrow> (case RedisLayer_deleteByTag tag now r of (deleted, r') \<Rightarrow> Some (deleted, Redis r'))
      | File f \<Rightarrow> (case FileLayer_deleteByTag tag f of (deleted, f') \<Rightarrow> Some (deleted, File f')))"

definition CacheLayer_name :: "'v CacheLayer \<Rightarrow> string" where
  "CacheLayer_name layer =
     (case layer of Memory m \<Rightarrow> ''memory'' | Redis r \<Rightarrow> ''redis'' | File f \<Rightarrow> ''file'')"

definition CacheLayer_getStats :: "'v CacheLayer \<Rightarrow> LayerStats" where
  "CacheLayer_getStats layer =
     (case layer of Memory m \<Rightarrow> stats m | Redis r \<Rightarrow> redis_stats r | File f \<Rightarrow> file_stats f)"

section \<open>CacheComposer\<close>

record GlobalStats =
  g_hits :: nat
  g_misses :: nat
  g_sets :: nat
  g_deletes :: nat

record 'v CacheComposer =
  layers :: "'v CacheLayer list"
  analytics :: bool
  globalStats :: GlobalStats






text \<open>
  The counters: \<^verbatim>\<open>if (this.analytics) this.globalStats.hits++\<close> and its
  likes.
\<close>

definition count_hit :: "'v CacheComposer \<Rightarrow> 'v CacheComposer" where
  "count_hit c =
     (if analytics c then c\<lparr>globalStats := (globalStats c)\<lparr>g_hits := g_hits (globalStats c) + 1\<rparr>\<rparr>
      else c)"

definition count_miss :: "'v CacheComposer \<Rightarrow> 'v CacheComposer" where
  "count_miss c =
     (if analytics c then c\<lparr>globalStats := (globalStats c)\<lparr>g_misses := g_misses (globalStats c) + 1\<rparr>\<rparr>
      else c)"

definition count_set :: "'v CacheComposer \<Rightarrow> 'v CacheComposer" where
  "count_set c =
     (if analytics c then c\<lparr>globalStats := (globalStats c)\<lparr>g_sets := g_sets (globalStats c) + 1\<rparr>\<rparr>
      else c)"

definition count_delete :: "'v CacheComposer \<Rightarrow> 'v CacheComposer" where
  "count_delete c =
     (if analytics c then c\<lparr>globalStats := (globalStats c)\<lparr>g_deletes := g_deletes (globalStats c) + 1\<rparr>\<rparr>
      else c)"

text \<open>
  A composed operation awaits its layer calls one after the other or jointly; all of
  them are given the clock reading of the composed call. The third result of
  \<open>get_loop\<close> is a log of the layer calls in the order the loop issues them
  (\<open>Probe i\<close> for \<^verbatim>\<open>this.layers[i].get(key)\<close>, \<open>Promote j\<close> for
  \<^verbatim>\<open>this.layers[j].set(key, value)\<close>); nothing reads it.
\<close>

datatype layer_call = Probe nat | Promote nat

function promote_loop ::
  "nat \<Rightarrow> nat \<Rightarrow> string \<Rightarrow> 'v \<Rightarrow> int \<Rightarrow> 'v CacheLayer list \<Rightarrow> 'v CacheLayer list \<times> layer_call list" where
  "promote_loop j i key v now ls =
     (if j < i
      then (case promote_loop (j + 1) i key v now (ls[j := CacheLayer_set key v no_options now (ls ! j)]) of
              (ls', calls) \<Rightarrow> (ls', Promote j # calls))
      else (ls, []))"
  by pat_completeness auto
termination
  by (relation "measure (\<lambda>(j, i, key, v, now, ls). i - j)") auto

function get_loop ::
  "nat \<Rightarrow> string \<Rightarrow> int \<Rightarrow> 'v CacheComposer \<Rightarrow> 'v option \<times> 'v CacheComposer \<times> layer_call list" where
  "get_loop i key now c =
     (if i < length (layers c)
      then (case CacheLayer_get key now (layers c ! i) of
              (Some v, layer') \<Rightarrow>
                (case promote_loop 0 i key v now ((layers c)[i := layer']) of
                   (ls', calls) \<Rightarrow> (Some v, (count_hit c)\<lparr>layers := ls'\<rparr>, Probe i # calls))
            | (None, layer') \<Rightarrow>
                (case get_loop (i + 1) key now (c\<lparr>layers := (layers c)[i := layer']\<rparr>) of
                   (value, c', calls) \<Rightarrow> (value, c', Probe i # calls)))
      else (None, count_miss c, []))"
  by pat_completeness auto
termination
  by (relation "measure (\<lambda>(i, key, now, c). length (layers c) - i)") auto

definition CacheComposer_get ::
  "string \<Rightarrow> int \<Rightarrow> 'v CacheComposer \<Rightarrow> 'v option \<times> 'v CacheComposer" where
  "CacheComposer_get key now c = (case get_loop 0 key now c of (value, c', calls) \<Rightarrow> (value, c'))"

definition CacheComposer_set ::
  "string \<Rightarrow> 'v \<Rightarrow> CacheOptions \<Rightarrow> int \<Rightarrow> 'v CacheComposer \<Rightarrow> 'v CacheComposer" where
  "CacheComposer_set key v options now c =
     (count_set c)\<lparr>layers := map (CacheLayer_set key v options now) (layers c)\<rparr>"

definition CacheComposer_delete ::
  "string \<Rightarrow> int \<Rightarrow> 'v CacheComposer \<Rightarrow> bool \<times> 'v CacheComposer" where
  "CacheComposer_delete key now c =
     (let results = map (CacheLayer_delete key now) (layers c)
      in (list_ex (\<lambda>r. r) (map fst results), (count_delete c)\<lparr>layers := map snd results\<rparr>))"

fun deleteByTag_layers ::
  "string \<Rightarrow> int \<Rightarrow> 'v CacheLayer list \<Rightarrow> nat \<Rightarrow> nat \<times> 'v CacheLayer list" where
  "deleteByTag_layers tag now [] totalDeleted = (totalDeleted, [])"
| "deleteByTag_layers tag now (layer # rest) totalDeleted =
     (case CacheLayer_deleteByTag tag now layer of
        Some (deleted, layer') \<Rightarrow>
          (case deleteByTag_layers tag now rest (totalDeleted + deleted) of
             (n, rest') \<Rightarrow> (n, layer' # rest'))
      | None \<Rightarrow>
          (case deleteByTag_layers tag now rest totalDeleted of
             (n, rest') \<Rightarrow> (n, layer # rest')))"

definition CacheComposer_deleteByTag ::
  "string \<Rightarrow> int \<Rightarrow> 'v CacheComposer \<Rightarrow> nat \<times> 'v CacheComposer" where
  "CacheComposer_deleteByTag tag now c =
     (case deleteByTag_layers tag now (layers c) 0 of
        (totalDeleted, layers') \<Rightarrow> (totalDeleted, c\<lparr>layers := layers'\<rparr>))"

text \<open>
  \<^verbatim>\<open>getStats\<close>. The quotient \<^verbatim>\<open>hits / totalRequests\<close> of two JavaScript
  numbers is modelled as the exact quotient.
\<close>

record CacheStats =
  cs_hits :: nat
  cs_misses :: nat
  cs_sets :: nat
  cs_deletes :: nat
  hitRate :: real
  totalRequests :: nat
  layerStats :: "(string, LayerStats) js_map"

definition CacheComposer_getStats :: "'v CacheComposer \<Rightarrow> CacheStats" where
  "CacheComposer_getStats c =
     (let totalRequests' = g_hits (globalStats c) + g_misses (globalStats c);
          hitRate' = (if totalRequests' > 0
                      then real (g_hits (globalStats c)) / real totalRequests' else 0)
      in \<lparr>cs_hits = g_hits (globalStats c),
          cs_misses = g_misses (globalStats c),
          cs_sets = g_sets (globalStats c),
          cs_deletes = g_deletes (globalStats c),
          hitRate = hitRate',
          totalRequests = totalRequests',
          layerStats = foldl (\<lambda>acc layer. Map_set acc (CacheLayer_name layer) (CacheLayer_getStats layer))
                         [] (layers c)\<rparr>)"

definition CacheComposer_resetStats :: "'v CacheComposer \<Rightarrow> 'v CacheComposer" where
  "CacheComposer_resetStats c =
     c\<lparr>globalStats := \<lparr>g_hits = 0, g_misses = 0, g_sets = 0, g_deletes = 0\<rparr>\<rparr>"

section \<open>Vocabulary of the properties\<close>

text \<open>
  The first-found entry with the smallest \<open>f\<close>: the entry of key \<open>k\<close> splits the
  entries, in iteration order, into those before it, all strictly larger, and those
  after it, none smaller.
\<close>

definition first_smallest :: "('e \<Rightarrow> 'a::linorder) \<Rightarrow> ('k \<times> 'e) list \<Rightarrow> 'k \<Rightarrow> bool" where
  "first_smallest f xs k =
     (\<exists>pre e post. xs = pre @ (k, e) # post
        \<and> (\<forall>x\<in>set pre. f e < f (snd x)) \<and> (\<forall>x\<in>set post. f e \<le> f (snd x)))"

text \<open>The two eviction scans are one scan, of the field \<open>f\<close>.\<close>

fun scan_min ::
  "('e \<Rightarrow> 'a::linorder) \<Rightarrow> (string \<times> 'e) list \<Rightarrow> 'a option \<Rightarrow> string option \<Rightarrow> string option" where
  "scan_min f [] b k0 = k0"
| "scan_min f ((k, e) # rest) b k0 =
     (if below (f e) b then scan_min f rest (Some (f e)) (Some k) else scan_min f rest b k0)"



text \<open>
  A client issuing a sequence of \<^verbatim>\<open>get\<close> calls, each with its key and the clock
  reading at the call; the results are collected in order.
\<close>

fun gets :: "(string \<times> int) list \<Rightarrow> 'v CacheComposer \<Rightarrow> 'v option list \<times> 'v CacheComposer" where
  "gets [] c = ([], c)"
| "gets ((key, now) # rest) c =
     (case CacheComposer_get key now c of
        (value, c') \<Rightarrow> (case gets rest c' of (found, c'') \<Rightarrow> (value # found, c'')))"

section \<open>Properties of the map operations\<close>

lemma Map_get_set: "Map_get (Map_set m k e) k' = (if k' = k then Some e else Map_get m k')"
  by (induction m) auto

lemma Map_get_delete: "Map_get (Map_delete m k) k' = (if k' = k then None else Map_get m k')"
  by (induction m) auto

lemma Map_has_set: "Map_has (Map_set m k e) k' = (k' = k \<or> Map_has m k')"
  by (simp add: Map_has_def Map_get_set)

lemma Map_has_delete: "Map_has (Map_delete m k) k' = (k' \<noteq> k \<and> Map_has m k')"
  by (simp add: Map_has_def Map_get_delete)

lemma Map_has_keys: "Map_has m k = (k \<in> fst ` set m)"
  by (induction m) (auto simp: Map_has_def)

lemma keys_Map_set: "map fst (Map_set m k e) = (if Map_has m k then map fst m else map fst m @ [k])"
  by (induction m) (auto simp: Map_has_def split: if_splits)

lemma Map_delete_filter: "Map_delete m k = filter (\<lambda>p. fst p \<noteq> k) m"
  by (induction m) auto

lemma distinct_Map_set: "distinct (map fst m) \<Longrightarrow> distinct (map fst (Map_set m k e))"
  by (simp add: keys_Map_set Map_has_keys)

lemma distinct_Map_delete: "distinct (map fst m) \<Longrightarrow> distinct (map fst (Map_delete m k))"
  by (simp add: Map_delete_filter distinct_map_filter)

lemma length_Map_set: "length (Map_set m k e) = (if Map_has m k then length m else length m + 1)"
  by (induction m) (auto simp: Map_has_def split: if_splits)

lemma length_Map_delete:
  "distinct (map fst m) \<Longrightarrow> Map_has m k \<Longrightarrow> length (Map_delete m k) + 1 = length m"
proof (induction m)
  case Nil
  then show ?case by (simp add: Map_has_def)
next
  case (Cons p m)
  show ?case
  proof (cases "fst p = k")
    case True
    with Cons.prems have "k \<notin> fst ` set m" by auto
    then have "Map_delete m k = m" by (induction m) auto
    with True show ?thesis by (cases p) simp
  next
    case False
    with Cons show ?thesis by (cases p) (auto simp: Map_has_def)
  qed
qed

lemma Map_get_set_same: "Map_get (Map_set m k e) k = Some e"
  by (induction m) auto

lemma Map_delete_middle:
  "distinct (map fst (pre @ (k, e) # post)) \<Longrightarrow> Map_delete (pre @ (k, e) # post) k = pre @ post"
proof -
  assume d: "distinct (map fst (pre @ (k, e) # post))"
  then have "\<forall>x\<in>set pre. fst x \<noteq> k" "\<forall>x\<in>set post. fst x \<noteq> k" by auto
  then have "filter (\<lambda>p. fst p \<noteq> k) pre = pre" "filter (\<lambda>p. fst p \<noteq> k) post = post"
    by (simp_all add: filter_id_conv)
  then show ?thesis by (simp add: Map_delete_filter)
qed

section \<open>The memory layer\<close>

lemma defaultTTL_evict [simp]: "defaultTTL (evict m) = defaultTTL m"
  by (simp add: evict_def split: option.splits)

lemma MemoryLayer_set_stored:
  "Map_get (cache (MemoryLayer_set key v options now m)) key
     = Some (new_entry v options (defaultTTL m) now)"
  by (simp add: MemoryLayer_set_def Let_def Map_get_set_same)

lemma deleteByTag_loop_eq:
  "distinct (map fst (pre @ xs)) \<Longrightarrow>
   deleteByTag_loop xs tag (pre @ xs) n =
     (n + length (filter (\<lambda>x. tags_include (snd x) tag) xs),
      pre @ filter (\<lambda>x. \<not> tags_include (snd x) tag) xs)"
proof (induction xs arbitrary: pre n)
  case Nil
  then show ?case by simp
next
  case (Cons p xs)
  obtain k e where p: "p = (k, e)" by (cases p)
  show ?case
  proof (cases "tags_include e tag")
    case True
    have "Map_delete (pre @ (k, e) # xs) k = pre @ xs"
      using Cons.prems by (intro Map_delete_middle) (simp add: p)
    moreover have "distinct (map fst (pre @ xs))" using Cons.prems by auto
    ultimately show ?thesis using True Cons.IH [of pre "n + 1"] by (simp add: p)
  next
    case False
    have "distinct (map fst ((pre @ [(k, e)]) @ xs))" using Cons.prems by (simp add: p)
    from Cons.IH [OF this, of n] False show ?thesis by (simp add: p)
  qed
qed

lemma MemoryLayer_deleteByTag_eq:
  "distinct (map fst (cache m)) \<Longrightarrow>
   MemoryLayer_deleteByTag tag m =
     (length (filter (\<lambda>x. tags_include (snd x) tag) (cache m)),
      m\<lparr>cache := filter (\<lambda>x. \<not> tags_include (snd x) tag) (cache m),
        stats := (stats m)\<lparr>st_size := length (filter (\<lambda>x. \<not> tags_include (snd x) tag) (cache m))\<rparr>\<rparr>)"
  using deleteByTag_loop_eq [of "[]" "cache m" tag 0]
  by (simp add: MemoryLayer_deleteByTag_def)

text \<open>The operations keep each key once in the map.\<close>

lemma distinct_evict: "distinct (map fst (cache m)) \<Longrightarrow> distinct (map fst (cache (evict m)))"
  by (simp add: evict_def distinct_Map_delete split: option.splits)

lemma distinct_MemoryLayer_ops:
  "distinct (map fst (cache (MemoryLayer_new s d p)))"
  "distinct (map fst (cache m)) \<Longrightarrow> distinct (map fst (cache (MemoryLayer_set key v options now m)))"
  "distinct (map fst (cache m)) \<Longrightarrow> distinct (map fst (cache (snd (MemoryLayer_get key now m))))"
  "distinct (map fst (cache m)) \<Longrightarrow> distinct (map fst (cache (snd (MemoryLayer_delete key m))))"
  "distinct (map fst (cache m)) \<Longrightarrow> distinct (map fst (cache (snd (MemoryLayer_has key now m))))"
  "distinct (map fst (cache m)) \<Longrightarrow> distinct (map fst (cache (snd (MemoryLayer_deleteByTag tag m))))"
  by (simp_all add: MemoryLayer_new_def MemoryLayer_set_def MemoryLayer_get_def MemoryLayer_delete_def
      MemoryLayer_has_def MemoryLayer_deleteByTag_eq Let_def distinct_Map_set distinct_Map_delete
      distinct_evict distinct_map_filter split: option.splits)

lemma cache_evict_other:
  "Map_get (cache (evict m)) k' = Map_get (cache m) k' \<or> Map_get (cache (evict m)) k' = None"
  by (simp add: evict_def Map_get_delete split: option.splits)

section \<open>The read path of the composer\<close>

declare get_loop.simps [simp del] promote_loop.simps [simp del]

lemma promote_loop_eq:
  "j \<le> i \<Longrightarrow> i \<le> length ls \<Longrightarrow>
   promote_loop j i key v now ls =
     (take j ls @ map (CacheLayer_set key v no_options now) (take (i - j) (drop j ls)) @ drop i ls,
      map Promote [j..<i])"
proof (induction j i key v now ls rule: promote_loop.induct)
  case (1 j i key v now ls)
  show ?case
  proof (cases "j < i")
    case False
    with "1.prems" show ?thesis by (subst promote_loop.simps) simp
  next
    case True
    let ?S = "CacheLayer_set key v no_options now"
    let ?ls' = "ls[j := ?S (ls ! j)]"
    from True "1.prems" have jl: "j < length ls" by simp
    have IH: "promote_loop (Suc j) i key v now ?ls' =
        (take (Suc j) ?ls' @ map ?S (take (i - Suc j) (drop (Suc j) ?ls')) @ drop i ?ls',
         map Promote [Suc j..<i])"
      using True "1.prems" "1.IH" by simp
    have a: "take (Suc j) ?ls' = take j ls @ [?S (ls ! j)]"
      using jl by (simp add: take_Suc_conv_app_nth)
    have b: "drop (Suc j) ?ls' = drop (Suc j) ls" by simp
    have c: "drop i ?ls' = drop i ls" using True by simp
    have d: "take (i - j) (drop j ls) = ls ! j # take (i - Suc j) (drop (Suc j) ls)"
      using True jl by (metis Cons_nth_drop_Suc Suc_diff_Suc take_Suc_Cons)
    have e: "[j..<i] = j # [Suc j..<i]" using True by (simp add: upt_conv_Cons)
    show ?thesis
      using True by (subst promote_loop.simps) (simp add: IH a b c d e del: upt_Suc)
  qed
qed

lemma count_miss_layers [simp]: "layers (count_miss c) = layers c" "analytics (count_miss c) = analytics c"
  by (simp_all add: count_miss_def)

lemma count_hit_layers [simp]: "layers (count_hit c) = layers c" "analytics (count_hit c) = analytics c"
  by (simp_all add: count_hit_def)

lemma count_layers_update [simp]:
  "count_miss (c\<lparr>layers := ls\<rparr>) = (count_miss c)\<lparr>layers := ls\<rparr>"
  "count_hit (c\<lparr>layers := ls\<rparr>) = (count_hit c)\<lparr>layers := ls\<rparr>"
  by (simp_all add: count_miss_def count_hit_def)

lemma get_loop_miss:
  "\<forall>j. i0 \<le> j \<and> j < length (layers c) \<longrightarrow> fst (CacheLayer_get key now (layers c ! j)) = None \<Longrightarrow>
   get_loop i0 key now c =
     (None,
      (count_miss c)\<lparr>layers := take i0 (layers c)
                        @ map (\<lambda>l. snd (CacheLayer_get key now l)) (drop i0 (layers c))\<rparr>,
      map Probe [i0..<length (layers c)])"
proof (induction i0 key now c rule: get_loop.induct)
  case (1 i key now c)
  let ?ls = "layers c"
  show ?case
  proof (cases "i < length ?ls")
    case False
    then show ?thesis by (subst get_loop.simps) simp
  next
    case True
    obtain l' where g: "CacheLayer_get key now (?ls ! i) = (None, l')"
      using "1.prems" True by (cases "CacheLayer_get key now (?ls ! i)") auto
    let ?c1 = "c\<lparr>layers := ?ls[i := l']\<rparr>"
    have pre: "\<forall>j. Suc i \<le> j \<and> j < length (layers ?c1) \<longrightarrow>
                 fst (CacheLayer_get key now (layers ?c1 ! j)) = None"
      using "1.prems" by auto
    have IH: "get_loop (Suc i) key now ?c1 =
        (None,
         (count_miss ?c1)\<lparr>layers := take (Suc i) (layers ?c1)
                            @ map (\<lambda>l. snd (CacheLayer_get key now l)) (drop (Suc i) (layers ?c1))\<rparr>,
         map Probe [Suc i..<length (layers ?c1)])"
      using "1.IH" [OF True g [symmetric] refl] pre by simp
    have a: "take (Suc i) (?ls[i := l']) = take i ?ls @ [l']"
      using True by (simp add: take_Suc_conv_app_nth)
    have d: "drop i ?ls = ?ls ! i # drop (Suc i) ?ls"
      using True by (simp add: Cons_nth_drop_Suc)
    have e: "[i..<length ?ls] = i # [Suc i..<length ?ls]" using True by (simp add: upt_conv_Cons)
    show ?thesis
      using True g by (subst get_loop.simps) (simp add: IH a d e del: upt_Suc)
  qed
qed

lemma get_loop_hit:
  "i0 \<le> i \<Longrightarrow> i < length (layers c) \<Longrightarrow>
   \<forall>j. i0 \<le> j \<and> j < i \<longrightarrow> fst (CacheLayer_get key now (layers c ! j)) = None \<Longrightarrow>
   fst (CacheLayer_get key now (layers c ! i)) = Some v \<Longrightarrow>
   get_loop i0 key now c =
     (Some v,
      (count_hit c)\<lparr>layers :=
         map (CacheLayer_set key v no_options now)
           (take i0 (layers c)
            @ map (\<lambda>l. snd (CacheLayer_get key now l)) (take (i - i0) (drop i0 (layers c))))
         @ snd (CacheLayer_get key now (layers c ! i)) # drop (Suc i) (layers c)\<rparr>,
      map Probe [i0..<Suc i] @ map Promote [0..<i])"
proof (induction i0 key now c rule: get_loop.induct)
  case (1 i0 key now c)
  let ?ls = "layers c"
  from "1.prems" have lt: "i0 < length ?ls" by simp
  show ?case
  proof (cases "i0 = i")
    case True
    obtain l' where g: "CacheLayer_get key now (?ls ! i) = (Some v, l')"
      using "1.prems" by (cases "CacheLayer_get key now (?ls ! i)") auto
    have p: "promote_loop 0 i key v now (?ls[i := l']) =
        (map (CacheLayer_set key v no_options now) (take i ?ls) @ l' # drop (Suc i) ?ls,
         map Promote [0..<i])"
      using "1.prems" by (simp add: promote_loop_eq drop_update_swap Cons_nth_drop_Suc [symmetric])
    show ?thesis
      using True "1.prems"(2) g p by (subst get_loop.simps) simp
  next
    case False
    with "1.prems" have lt': "i0 < i" by simp
    obtain l' where g: "CacheLayer_get key now (?ls ! i0) = (None, l')"
      using "1.prems" lt' by (cases "CacheLayer_get key now (?ls ! i0)") auto
    let ?c1 = "c\<lparr>layers := ?ls[i0 := l']\<rparr>"
    have IH: "get_loop (Suc i0) key now ?c1 =
        (Some v,
         (count_hit ?c1)\<lparr>layers :=
            map (CacheLayer_set key v no_options now)
              (take (Suc i0) (layers ?c1)
               @ map (\<lambda>l. snd (CacheLayer_get key now l)) (take (i - Suc i0) (drop (Suc i0) (layers ?c1))))
            @ snd (CacheLayer_get key now (layers ?c1 ! i)) # drop (Suc i) (layers ?c1)\<rparr>,
         map Probe [Suc i0..<Suc i] @ map Promote [0..<i])"
      using "1.IH" [OF lt g [symmetric] refl] "1.prems" lt' by simp
    have a: "take (Suc i0) (?ls[i0 := l']) = take i0 ?ls @ [l']"
      using lt by (simp add: take_Suc_conv_app_nth)
    have d: "take (i - i0) (drop i0 ?ls) = ?ls ! i0 # take (i - Suc i0) (drop (Suc i0) ?ls)"
      using lt lt' by (metis Cons_nth_drop_Suc Suc_diff_Suc take_Suc_Cons)
    have e: "[i0..<Suc i] = i0 # [Suc i0..<Suc i]" using lt' by (simp add: upt_conv_Cons)
    have n: "?ls[i0 := l'] ! i = ?ls ! i" using lt' by simp
    have f: "drop (Suc i) (?ls[i0 := l']) = drop (Suc i) ?ls" using lt' by simp
    show ?thesis
      using lt g by (subst get_loop.simps) (simp add: IH a d e n f del: upt_Suc)
  qed
qed

lemma sadd_loop_keeps:
  "Map_get db k0 = Some (RString e d) \<Longrightarrow> \<not> d < now \<Longrightarrow>
   Map_get (sadd_loop ts pre key now db) k0 = Some (RString e d)"
proof (induction ts arbitrary: db)
  case Nil
  then show ?case by simp
next
  case (Cons t ts)
  show ?case
  proof (cases "client_sadd db (pre @ ''tag:'' @ t) key now")
    case None
    with Cons.prems show ?thesis by simp
  next
    case (Some db')
    with Cons.prems have "Map_get db' k0 = Some (RString e d)"
      by (auto simp: client_sadd_def redis_live_def Map_get_set
          split: option.splits redis_val.splits if_splits)
    from Cons.IH [OF this Cons.prems(2)] Some show ?thesis by simp
  qed
qed

lemma RedisLayer_set_stored:
  "0 < effective_ttl options (redis_defaultTTL r) \<Longrightarrow>
   Map_get (client (RedisLayer_set key v options now r)) (getKey r key)
     = Some (RString (new_entry v options (redis_defaultTTL r) now)
               (now + effective_ttl options (redis_defaultTTL r)))"
  by (auto simp: RedisLayer_set_def Let_def client_set_px_def Map_get_set_same
      intro!: sadd_loop_keeps split: option.splits)


lemma CacheComposer_get_alt:
  "CacheComposer_get key now c = (fst (get_loop 0 key now c), fst (snd (get_loop 0 key now c)))"
  by (simp add: CacheComposer_get_def case_prod_beta)

lemma fst_CacheLayer_get_Memory:
  "fst (CacheLayer_get key now (Memory m)) = fst (MemoryLayer_get key now m)"
  by (simp add: CacheLayer_get_def split: prod.splits)

lemmas layer_defs = MemoryLayer_set_def MemoryLayer_get_def MemoryLayer_new_def MemoryLayer_delete_def
  MemoryLayer_has_def MemoryLayer_deleteByTag_def
  FileLayer_set_def FileLayer_get_def FileLayer_new_def FileLayer_delete_def FileLayer_has_def
  FileLayer_deleteByTag_def
  CacheLayer_get_def CacheLayer_set_def CacheLayer_delete_def CacheLayer_has_def CacheLayer_deleteByTag_def
  CacheComposer_set_def count_set_def count_hit_def count_miss_def count_delete_def
  Map_has_def evict_def evict_select_def evictLRU_def evictLFU_def
  new_entry_def no_options_def effective_ttl_def LayerStats_init_def hashKey_def tags_include_def


lemma prefix_RedisLayer_set [simp]: "prefix (RedisLayer_set key v options now r) = prefix r"
  by (simp add: RedisLayer_set_def Let_def split: option.splits)






text \<open>
  C2. \<^verbatim>\<open>get\<close> probes the layers in the order \<open>0, 1, ...\<close>. When layer \<open>i\<close> is
  the first whose \<^verbatim>\<open>get\<close> returns a value \<open>v\<close>, the result is \<open>v\<close>, the hit counter
  has grown by one if analytics is enabled, every layer before \<open>i\<close> has recorded its
  own miss and then received \<^verbatim>\<open>set(key, v)\<close> with no options, layer \<open>i\<close> has
  recorded its hit, the layers after \<open>i\<close> are untouched, and the layer calls were
  issued in the order probe \<open>0..i\<close>, then promote \<open>0..i-1\<close>, all before the result
  is returned. When no layer returns a value, the result is absent, every layer has
  been probed in order and the miss counter has grown by one if analytics is enabled.
  The entry that a \<^verbatim>\<open>set\<close> with no options builds expires after the layer's own
  default TTL and carries no tags.
\<close>

theorem CacheComposer_get_probe_promote:
  "(\<forall>i v. i < length (layers c)
        \<and> (\<forall>j<i. fst (CacheLayer_get key now (layers c ! j)) = None)
        \<and> fst (CacheLayer_get key now (layers c ! i)) = Some v \<longrightarrow>
      get_loop 0 key now c =
        (Some v,
         (count_hit c)\<lparr>layers :=
            map (\<lambda>l. CacheLayer_set key v no_options now (snd (CacheLayer_get key now l)))
              (take i (layers c))
            @ snd (CacheLayer_get key now (layers c ! i)) # drop (Suc i) (layers c)\<rparr>,
         map Probe [0..<Suc i] @ map Promote [0..<i]))
   \<and> ((\<forall>j<length (layers c). fst (CacheLayer_get key now (layers c ! j)) = None) \<longrightarrow>
      get_loop 0 key now c =
        (None,
         (count_miss c)\<lparr>layers := map (\<lambda>l. snd (CacheLayer_get key now l)) (layers c)\<rparr>,
         map Probe [0..<length (layers c)]))
   \<and> CacheComposer_get key now c = (fst (get_loop 0 key now c), fst (snd (get_loop 0 key now c)))
   \<and> g_hits (globalStats (count_hit c)) = g_hits (globalStats c) + (if analytics c then 1 else 0)
   \<and> g_misses (globalStats (count_miss c)) = g_misses (globalStats c) + (if analytics c then 1 else 0)
   \<and> new_entry v' no_options d now =
        \<lparr>val = v', expiresAt = now + d, createdAt = now, accessCount = 0, lastAccessed = now,
         tags = None\<rparr>"
proof (intro conjI allI impI)
  fix i v
  assume "i < length (layers c)
        \<and> (\<forall>j<i. fst (CacheLayer_get key now (layers c ! j)) = None)
        \<and> fst (CacheLayer_get key now (layers c ! i)) = Some v"
  then show "get_loop 0 key now c =
        (Some v,
         (count_hit c)\<lparr>layers :=
            map (\<lambda>l. CacheLayer_set key v no_options now (snd (CacheLayer_get key now l)))
              (take i (layers c))
            @ snd (CacheLayer_get key now (layers c ! i)) # drop (Suc i) (layers c)\<rparr>,
         map Probe [0..<Suc i] @ map Promote [0..<i])"
    using get_loop_hit [of 0 i c key now v] by (simp add: comp_def)
next
  assume "\<forall>j<length (layers c). fst (CacheLayer_get key now (layers c ! j)) = None"
  then show "get_loop 0 key now c =
        (None,
         (count_miss c)\<lparr>layers := map (\<lambda>l. snd (CacheLayer_get key now l)) (layers c)\<rparr>,
         map Probe [0..<length (layers c)])"
    using get_loop_miss [of 0 c key now] by simp
qed (simp_all add: CacheComposer_get_alt count_hit_def count_miss_def new_entry_def no_options_def
      effective_ttl_def)

theorem CacheComposer_get_probe_promote_witness:
  "(let c = CacheComposer_set ''k2'' 2 no_options 2
             (CacheComposer_set ''k1'' (1::nat) no_options 1
               \<lparr>layers = [Memory (MemoryLayer_new 1 3600000 LRU), File (FileLayer_new True 86400000)],
                analytics = True,
                globalStats = \<lparr>g_hits = 0, g_misses = 0, g_sets = 0, g_deletes = 0\<rparr>\<rparr>)
    in fst (CacheLayer_get ''k1'' 3 (layers c ! 0)) = None
       \<and> fst (CacheLayer_get ''k1'' 3 (layers c ! 1)) = Some 1
       \<and> fst (get_loop 0 ''k1'' 3 c) = Some 1
       \<and> snd (snd (get_loop 0 ''k1'' 3 c)) = [Probe 0, Probe 1, Promote 0]
       \<and> g_hits (globalStats (fst (snd (get_loop 0 ''k1'' 3 c)))) = 1)"
  using CacheComposer_get_probe_promote [of
      "CacheComposer_set ''k2'' 2 no_options 2
             (CacheComposer_set ''k1'' (1::nat) no_options 1
               \<lparr>layers = [Memory (MemoryLayer_new 1 3600000 LRU), File (FileLayer_new True 86400000)],
                analytics = True,
                globalStats = \<lparr>g_hits = 0, g_misses = 0, g_sets = 0, g_deletes = 0\<rparr>\<rparr>)"
      "''k1''" 3, THEN conjunct1, rule_format, of 1 1]
  by (simp add: layer_defs)

section \<open>Eviction selection\<close>

lemma evictLRU_loop_scan: "evictLRU_loop xs b k0 = scan_min lastAccessed xs b k0"
  by (induction xs b k0 rule: evictLRU_loop.induct) auto

lemma evictLFU_loop_scan: "evictLFU_loop xs b k0 = scan_min accessCount xs b k0"
  by (induction xs b k0 rule: evictLFU_loop.induct) auto

lemma scan_min_bounded: "\<forall>x\<in>set xs. b \<le> f (snd x) \<Longrightarrow> scan_min f xs (Some b) k0 = k0"
  by (induction xs) auto

lemma scan_min_found:
  "\<exists>x\<in>set xs. f (snd x) < b \<Longrightarrow>
   \<exists>pre k e post. scan_min f xs (Some b) k0 = Some k \<and> xs = pre @ (k, e) # post \<and> f e < b
      \<and> (\<forall>x\<in>set pre. f e < f (snd x)) \<and> (\<forall>x\<in>set post. f e \<le> f (snd x))"
proof (induction xs arbitrary: b k0)
  case Nil
  then show ?case by simp
next
  case (Cons p xs)
  obtain k1 e1 where p: "p = (k1, e1)" by (cases p)
  show ?case
  proof (cases "f e1 < b")
    case True
    show ?thesis
    proof (cases "\<exists>x\<in>set xs. f (snd x) < f e1")
      case False
      then have "scan_min f xs (Some (f e1)) (Some k1) = Some k1"
        by (intro scan_min_bounded) auto
      with True False p have
        "scan_min f (p # xs) (Some b) k0 = Some k1 \<and> p # xs = [] @ (k1, e1) # xs \<and> f e1 < b
         \<and> (\<forall>x\<in>set []. f e1 < f (snd x)) \<and> (\<forall>x\<in>set xs. f e1 \<le> f (snd x))"
        by auto
      then show ?thesis by blast
    next
      case ex: True
      from Cons.IH [OF ex, of "Some k1"] obtain pre k e post where
        r: "scan_min f xs (Some (f e1)) (Some k1) = Some k" "xs = pre @ (k, e) # post" "f e < f e1"
           "\<forall>x\<in>set pre. f e < f (snd x)" "\<forall>x\<in>set post. f e \<le> f (snd x)"
        by blast
      with True p have
        "scan_min f (p # xs) (Some b) k0 = Some k \<and> p # xs = (p # pre) @ (k, e) # post \<and> f e < b
         \<and> (\<forall>x\<in>set (p # pre). f e < f (snd x)) \<and> (\<forall>x\<in>set post. f e \<le> f (snd x))"
        by auto
      then show ?thesis by blast
    qed
  next
    case False
    with Cons.prems p have ex: "\<exists>x\<in>set xs. f (snd x) < b" by auto
    from Cons.IH [OF ex, of k0] obtain pre k e post where
      r: "scan_min f xs (Some b) k0 = Some k" "xs = pre @ (k, e) # post" "f e < b"
         "\<forall>x\<in>set pre. f e < f (snd x)" "\<forall>x\<in>set post. f e \<le> f (snd x)"
      by blast
    with False p have
      "scan_min f (p # xs) (Some b) k0 = Some k \<and> p # xs = (p # pre) @ (k, e) # post \<and> f e < b
       \<and> (\<forall>x\<in>set (p # pre). f e < f (snd x)) \<and> (\<forall>x\<in>set post. f e \<le> f (snd x))"
      by auto
    then show ?thesis by blast
  qed
qed

lemma scan_min_first_smallest:
  assumes "xs \<noteq> []"
  shows "\<exists>k. scan_min f xs None None = Some k \<and> first_smallest f xs k"
proof -
  from assms obtain k1 e1 rest where xs: "xs = (k1, e1) # rest" by (cases xs) auto
  show ?thesis
  proof (cases "\<exists>x\<in>set rest. f (snd x) < f e1")
    case False
    then have "scan_min f rest (Some (f e1)) (Some k1) = Some k1"
      by (intro scan_min_bounded) auto
    moreover from False have "first_smallest f xs k1"
      unfolding first_smallest_def xs by (intro exI [of _ "[]"] exI [of _ e1] exI [of _ rest]) auto
    ultimately show ?thesis by (simp add: xs)
  next
    case True
    from scan_min_found [OF True, of "Some k1"] obtain pre k e post where
      r: "scan_min f rest (Some (f e1)) (Some k1) = Some k" "rest = pre @ (k, e) # post" "f e < f e1"
         "\<forall>x\<in>set pre. f e < f (snd x)" "\<forall>x\<in>set post. f e \<le> f (snd x)"
      by blast
    then have "first_smallest f xs k"
      unfolding first_smallest_def xs
      by (intro exI [of _ "(k1, e1) # pre"] exI [of _ e] exI [of _ post]) auto
    with r show ?thesis by (simp add: xs)
  qed
qed

text \<open>
  C4. Eviction selection. In a non-empty memory layer \<^verbatim>\<open>evictLRU\<close> returns the key
  of the first-found entry with the smallest \<^verbatim>\<open>lastAccessed\<close> over all resident
  entries, and \<^verbatim>\<open>evictLFU\<close> that of the first-found entry with the smallest
  \<^verbatim>\<open>accessCount\<close>. \<^verbatim>\<open>evict\<close> selects with \<^verbatim>\<open>evictLFU\<close> when the policy
  type is \<^verbatim>\<open>'lfu'\<close> and with \<^verbatim>\<open>evictLRU\<close> for every other type, and the
  entry it removes is the one of the selected key.
\<close>

theorem evict_selection:
  "cache m \<noteq> [] \<Longrightarrow>
     (\<exists>k. evictLRU m = Some k \<and> first_smallest lastAccessed (cache m) k)
   \<and> (\<exists>k. evictLFU m = Some k \<and> first_smallest accessCount (cache m) k)
   \<and> evict_select m = (if invalidation m = LFU then evictLFU m else evictLRU m)
   \<and> (\<forall>k. cache (evict m) \<noteq> cache m \<longrightarrow> evict_select m = Some k \<longrightarrow>
          cache (evict m) = Map_delete (cache m) k)"
  using scan_min_first_smallest [of "cache m" lastAccessed]
    scan_min_first_smallest [of "cache m" accessCount]
  by (auto simp add: evictLRU_def evictLFU_def evictLRU_loop_scan evictLFU_loop_scan evict_select_def
      evict_def split: InvalidationType.splits)

theorem evict_selection_witness:
  "(let m = MemoryLayer_set ''k2'' 2 no_options 2
              (MemoryLayer_set ''k1'' (1::nat) no_options 1 (MemoryLayer_new 2 3600000 LFU));
        m' = snd (MemoryLayer_get ''k1'' 3 m)
    in cache m' \<noteq> []
       \<and> evictLRU m' = Some ''k2'' \<and> first_smallest lastAccessed (cache m') ''k2''
       \<and> evictLFU m' = Some ''k2'' \<and> first_smallest accessCount (cache m') ''k2''
       \<and> evict_select m' = Some ''k2''
       \<and> map fst (cache (evict m')) = [''k1''])"
  using evict_selection [of "snd (MemoryLayer_get ''k1'' 3
      (MemoryLayer_set ''k2'' 2 no_options 2
        (MemoryLayer_set ''k1'' (1::nat) no_options 1 (MemoryLayer_new 2 3600000 LFU))))"]
  by (simp add: MemoryLayer_set_def MemoryLayer_get_def MemoryLayer_new_def Map_has_def evict_def
      evict_select_def evictLRU_def evictLFU_def new_entry_def no_options_def effective_ttl_def
      LayerStats_init_def)

section \<open>Capacity of the memory layer\<close>

text \<open>
  As long as no resident key is the empty string, \<^verbatim>\<open>evict\<close> removes exactly one
  entry of a non-empty map, and \<^verbatim>\<open>set\<close> keeps the entry count within
  \<^verbatim>\<open>maxSize\<close>.
\<close>

lemma first_smallest_resident: "first_smallest f xs k \<Longrightarrow> Map_has xs k"
  by (auto simp: first_smallest_def Map_has_keys image_iff)

lemma evict_select_resident:
  "cache m \<noteq> [] \<Longrightarrow> \<exists>k. evict_select m = Some k \<and> Map_has (cache m) k"
  using scan_min_first_smallest [of "cache m" lastAccessed]
    scan_min_first_smallest [of "cache m" accessCount]
  by (auto simp: evict_select_def evictLRU_def evictLFU_def evictLRU_loop_scan evictLFU_loop_scan
      first_smallest_resident split: InvalidationType.splits)

lemma evict_removes_one:
  assumes "distinct (map fst (cache m))" "cache m \<noteq> []" "[] \<notin> fst ` set (cache m)"
  shows "length (cache (evict m)) + 1 = length (cache m)"
proof -
  from evict_select_resident [OF assms(2)] obtain k where
    k: "evict_select m = Some k" "Map_has (cache m) k" by blast
  with assms(3) have "k \<noteq> []" by (force simp: Map_has_keys)
  with k assms(2) length_Map_delete [OF assms(1) k(2)] show ?thesis
    by (simp add: evict_def)
qed

lemma MemoryLayer_set_within_capacity:
  assumes "distinct (map fst (cache m))" "[] \<notin> fst ` set (cache m)"
    "1 \<le> maxSize m" "int (length (cache m)) \<le> maxSize m"
  shows "int (length (cache (MemoryLayer_set key v options now m))) \<le> maxSize m"
proof (cases "int (length (cache m)) \<ge> maxSize m \<and> \<not> Map_has (cache m) key")
  case True
  with assms(3) have ne: "cache m \<noteq> []" by auto
  from evict_removes_one [OF assms(1) ne assms(2)] True assms(4)
  have "int (length (cache (evict m))) + 1 = maxSize m" by simp
  moreover have "maxSize (evict m) = maxSize m" by (simp add: evict_def split: option.splits)
  ultimately show ?thesis
    using True by (simp add: MemoryLayer_set_def Let_def length_Map_set)
next
  case False
  with assms(4) show ?thesis
    by (auto simp: MemoryLayer_set_def Let_def length_Map_set)
qed

text \<open>
  C3. A memory layer with \<^verbatim>\<open>maxSize = 1\<close> that holds the key \<^verbatim>\<open>""\<close> is full.
  Setting the new key \<^verbatim>\<open>"a"\<close> calls \<^verbatim>\<open>evict\<close>, which selects \<^verbatim>\<open>""\<close>, finds
  it falsy and deletes nothing: afterwards both keys are resident and the entry count
  exceeds \<^verbatim>\<open>maxSize\<close>.
\<close>

theorem MemoryLayer_set_empty_key_overflow:
  "(let m = MemoryLayer_set ''a'' 2 no_options 1
              (MemoryLayer_set '''' (1::nat) no_options 0 (MemoryLayer_new 1 3600000 LRU))
    in map fst (cache m) = ['''', ''a''] \<and> int (length (cache m)) > maxSize m)"
  by (simp add: MemoryLayer_set_def MemoryLayer_new_def Map_has_def evict_def evict_select_def
      evictLRU_def new_entry_def no_options_def effective_ttl_def LayerStats_init_def)

section \<open>Lazy expiry\<close>

text \<open>
  The memory layer enforces expiry on \<^verbatim>\<open>get\<close> and on \<^verbatim>\<open>has\<close>, the file layer
  on \<^verbatim>\<open>get\<close>: an expired entry is reported absent and removed.
\<close>

lemma MemoryLayer_lazy_expiry:
  "Map_get (cache m) key = Some e \<Longrightarrow> expiresAt e < now \<Longrightarrow>
   fst (MemoryLayer_get key now m) = None
   \<and> Map_get (cache (snd (MemoryLayer_get key now m))) key = None
   \<and> fst (MemoryLayer_has key now m) = False
   \<and> Map_get (cache (snd (MemoryLayer_has key now m))) key = None"
  by (simp add: MemoryLayer_get_def MemoryLayer_has_def Map_get_delete)

lemma FileLayer_get_lazy_expiry:
  "fs f = Some files \<Longrightarrow> Map_get files (hashKey key) = Some e \<Longrightarrow> expiresAt e < now \<Longrightarrow>
   fst (FileLayer_get key now f) = None
   \<and> fs (snd (FileLayer_get key now f)) = Some (Map_delete files (hashKey key))"
  by (simp add: FileLayer_get_def FileLayer_delete_def Map_has_def)

text \<open>
  C5. In the file layer, a value set at time 0 with a TTL of 1 ms has
  \<^verbatim>\<open>expiresAt = 1\<close>. At time 5 \<^verbatim>\<open>get\<close> reports it absent, but \<^verbatim>\<open>has\<close>, which
  only tests that the file exists, still reports it present.
\<close>

theorem FileLayer_has_ignores_expiry:
  "(let f = FileLayer_set ''k'' (7::nat) \<lparr>ttl = Some 1, opt_tags = None\<rparr> 0
              (FileLayer_new True 3600000)
    in FileLayer_has ''k'' f \<and> fst (FileLayer_get ''k'' 5 f) = None
       \<and> (case fs f of
             None \<Rightarrow> None
           | Some files \<Rightarrow> map_option expiresAt (Map_get files (hashKey ''k''))) = Some 1)"
  by (simp add: FileLayer_set_def FileLayer_new_def FileLayer_has_def FileLayer_get_def
      FileLayer_delete_def Map_has_def new_entry_def effective_ttl_def LayerStats_init_def)

section \<open>Entry bookkeeping\<close>

text \<open>
  C6, as stated, fails. A negative TTL is taken as it is, so \<^verbatim>\<open>expiresAt\<close> can lie
  before \<^verbatim>\<open>createdAt\<close>: a set at time 100 with \<^verbatim>\<open>ttl = -5\<close> stores
  \<^verbatim>\<open>expiresAt = 95\<close>. A write does change \<^verbatim>\<open>lastAccessed\<close>: a key set at
  100 and read at 150 has \<^verbatim>\<open>lastAccessed = 150\<close> and \<^verbatim>\<open>accessCount = 1\<close>; set again
  at 200, it has \<^verbatim>\<open>lastAccessed = 200\<close> and \<^verbatim>\<open>accessCount = 0\<close>. And the
  file layer keeps no counters: the entry of a key set at 100 and read, with a hit, at
  150 still has \<^verbatim>\<open>lastAccessed = 100\<close> and \<^verbatim>\<open>accessCount = 0\<close>.
\<close>

theorem entry_bookkeeping_counterexample:
  "(let m = MemoryLayer_set ''k'' (1::nat) \<lparr>ttl = Some (- 5), opt_tags = None\<rparr> 100
              (MemoryLayer_new 10 1000 LRU)
    in map_option (\<lambda>e. (expiresAt e, createdAt e)) (Map_get (cache m) ''k'') = Some (95, 100))
   \<and> (let m1 = MemoryLayer_set ''k'' (1::nat) no_options 100 (MemoryLayer_new 10 1000 LRU);
           m2 = snd (MemoryLayer_get ''k'' 150 m1);
           m3 = MemoryLayer_set ''k'' 1 no_options 200 m2
       in map_option (\<lambda>e. (lastAccessed e, accessCount e)) (Map_get (cache m2) ''k'') = Some (150, 1)
          \<and> map_option (\<lambda>e. (lastAccessed e, accessCount e)) (Map_get (cache m3) ''k'') = Some (200, 0))
   \<and> (let f1 = FileLayer_set ''k'' (1::nat) no_options 100 (FileLayer_new True 1000);
           f2 = snd (FileLayer_get ''k'' 150 f1)
       in fst (FileLayer_get ''k'' 150 f1) = Some 1
          \<and> (case fs f2 of
                None \<Rightarrow> None
              | Some files \<Rightarrow>
                  map_option (\<lambda>e. (lastAccessed e, accessCount e)) (Map_get files (hashKey ''k'')))
              = Some (100, 0))"
  by (simp add: MemoryLayer_set_def MemoryLayer_get_def MemoryLayer_new_def Map_has_def
      FileLayer_set_def FileLayer_get_def FileLayer_new_def
      new_entry_def no_options_def effective_ttl_def LayerStats_init_def)

text \<open>
  C6, amended. In the memory layer, \<^verbatim>\<open>set\<close> at time \<open>now\<close> stores for the key a
  fresh entry with \<^verbatim>\<open>createdAt = lastAccessed = now\<close>, \<^verbatim>\<open>accessCount = 0\<close> and
  \<^verbatim>\<open>expiresAt = now + (options.ttl || defaultTTL)\<close>, so that \<^verbatim>\<open>expiresAt\<close> is after
  \<^verbatim>\<open>createdAt\<close> exactly when that TTL is positive, and it changes the entry of no other
  key (it may evict one). A \<^verbatim>\<open>get\<close> that hits adds exactly one to the
  \<^verbatim>\<open>accessCount\<close> of the key's entry and sets its \<^verbatim>\<open>lastAccessed\<close> to the time of
  the read; a \<^verbatim>\<open>get\<close> that misses leaves the key absent; either way the entries of
  the other keys are unchanged.
\<close>

theorem entry_bookkeeping:
  "Map_get (cache (MemoryLayer_set key v options now m)) key =
     Some \<lparr>val = v, expiresAt = now + effective_ttl options (defaultTTL m), createdAt = now,
           accessCount = 0, lastAccessed = now, tags = opt_tags options\<rparr>
   \<and> (\<forall>e. Map_get (cache (MemoryLayer_set key v options now m)) key = Some e \<longrightarrow>
         (createdAt e < expiresAt e) = (0 < effective_ttl options (defaultTTL m)))
   \<and> (\<forall>k'. k' \<noteq> key \<longrightarrow>
         Map_get (cache (MemoryLayer_set key v options now m)) k' = Map_get (cache m) k'
         \<or> Map_get (cache (MemoryLayer_set key v options now m)) k' = None)
   \<and> (\<forall>v'. fst (MemoryLayer_get key now m) = Some v' \<longrightarrow>
         (\<exists>e. Map_get (cache m) key = Some e \<and> val e = v' \<and> \<not> expiresAt e < now
            \<and> Map_get (cache (snd (MemoryLayer_get key now m))) key
                = Some (e\<lparr>accessCount := accessCount e + 1, lastAccessed := now\<rparr>)))
   \<and> (fst (MemoryLayer_get key now m) = None \<longrightarrow>
         Map_get (cache (snd (MemoryLayer_get key now m))) key = None)
   \<and> (\<forall>k'. k' \<noteq> key \<longrightarrow>
         Map_get (cache (snd (MemoryLayer_get key now m))) k' = Map_get (cache m) k')"
proof (intro conjI allI impI)
  show "Map_get (cache (MemoryLayer_set key v options now m)) key =
     Some \<lparr>val = v, expiresAt = now + effective_ttl options (defaultTTL m), createdAt = now,
           accessCount = 0, lastAccessed = now, tags = opt_tags options\<rparr>"
    by (simp add: MemoryLayer_set_stored new_entry_def)
next
  fix e assume "Map_get (cache (MemoryLayer_set key v options now m)) key = Some e"
  then show "(createdAt e < expiresAt e) = (0 < effective_ttl options (defaultTTL m))"
    by (auto simp: MemoryLayer_set_stored new_entry_def)
next
  fix k' :: string assume "k' \<noteq> key"
  then show "Map_get (cache (MemoryLayer_set key v options now m)) k' = Map_get (cache m) k'
         \<or> Map_get (cache (MemoryLayer_set key v options now m)) k' = None"
    using cache_evict_other [of m k'] by (simp add: MemoryLayer_set_def Let_def Map_get_set)
next
  fix v' assume "fst (MemoryLayer_get key now m) = Some v'"
  then show "\<exists>e. Map_get (cache m) key = Some e \<and> val e = v' \<and> \<not> expiresAt e < now
            \<and> Map_get (cache (snd (MemoryLayer_get key now m))) key
                = Some (e\<lparr>accessCount := accessCount e + 1, lastAccessed := now\<rparr>)"
    by (auto simp: MemoryLayer_get_def Map_get_set_same split: option.splits if_splits)
next
  assume "fst (MemoryLayer_get key now m) = None"
  then show "Map_get (cache (snd (MemoryLayer_get key now m))) key = None"
    by (auto simp: MemoryLayer_get_def Map_get_delete split: option.splits if_splits)
next
  fix k' :: string assume "k' \<noteq> key"
  then show "Map_get (cache (snd (MemoryLayer_get key now m))) k' = Map_get (cache m) k'"
    by (simp add: MemoryLayer_get_def Map_get_delete Map_get_set split: option.splits)
qed

theorem entry_bookkeeping_witness:
  "(let m1 = MemoryLayer_set ''a'' (1::nat) \<lparr>ttl = Some 50, opt_tags = None\<rparr> 100
               (MemoryLayer_new 10 1000 LRU);
        m2 = MemoryLayer_set ''b'' 2 no_options 110 m1;
        m3 = snd (MemoryLayer_get ''a'' 120 m2)
    in fst (MemoryLayer_get ''a'' 120 m2) = Some 1
       \<and> map_option (\<lambda>e. (createdAt e, expiresAt e, accessCount e, lastAccessed e)) (Map_get (cache m2) ''a'')
           = Some (100, 150, 0, 100)
       \<and> map_option (\<lambda>e. (createdAt e, expiresAt e, accessCount e, lastAccessed e)) (Map_get (cache m3) ''a'')
           = Some (100, 150, 1, 120)
       \<and> Map_get (cache m3) ''b'' = Map_get (cache m2) ''b''
       \<and> ''b'' \<noteq> ''a'')"
  using entry_bookkeeping [of "''a''" "1::nat" "\<lparr>ttl = Some 50, opt_tags = None\<rparr>" 100
      "MemoryLayer_new 10 1000 LRU"]
    entry_bookkeeping [of "''a''" _ _ 120
      "MemoryLayer_set ''b'' 2 no_options 110
         (MemoryLayer_set ''a'' (1::nat) \<lparr>ttl = Some 50, opt_tags = None\<rparr> 100
            (MemoryLayer_new 10 1000 LRU))"]
  by (simp add: MemoryLayer_set_def MemoryLayer_get_def MemoryLayer_new_def Map_has_def
      new_entry_def no_options_def effective_ttl_def LayerStats_init_def)

section \<open>Tag invalidation\<close>

lemma deleteByTag_layers_sum:
  "fst (deleteByTag_layers tag now ls t) =
     t + sum_list (map (\<lambda>l. case CacheLayer_deleteByTag tag now l of None \<Rightarrow> 0 | Some (n, l') \<Rightarrow> n) ls)"
  by (induction ls arbitrary: t) (simp_all add: case_prod_beta split: option.splits)

text \<open>
  C7. In a memory layer (whose \<^verbatim>\<open>Map\<close> holds each key once), \<^verbatim>\<open>deleteByTag\<close>
  returns the number of resident entries whose tags contain the tag and leaves exactly
  the other entries, in their order. After \<^verbatim>\<open>set\<close> the tags of the key's entry are
  those of the options of this call, whatever they were before. The composer's
  \<^verbatim>\<open>deleteByTag\<close> returns the sum of the counts of the layers that have the
  method; a layer without it adds nothing.
\<close>

theorem deleteByTag_counts:
  "(distinct (map fst (cache m)) \<longrightarrow>
      fst (MemoryLayer_deleteByTag tag m) = length (filter (\<lambda>x. tags_include (snd x) tag) (cache m))
    \<and> cache (snd (MemoryLayer_deleteByTag tag m)) = filter (\<lambda>x. \<not> tags_include (snd x) tag) (cache m))
   \<and> map_option tags (Map_get (cache (MemoryLayer_set key v options now m)) key) = Some (opt_tags options)
   \<and> fst (CacheComposer_deleteByTag tag now c) =
       sum_list (map (\<lambda>l. case CacheLayer_deleteByTag tag now l of None \<Rightarrow> 0 | Some (n, l') \<Rightarrow> n)
                  (layers c))"
  using deleteByTag_layers_sum [of tag now "layers c" 0]
  by (simp add: MemoryLayer_deleteByTag_eq MemoryLayer_set_stored new_entry_def
      CacheComposer_deleteByTag_def case_prod_beta)

theorem deleteByTag_counts_witness:
  "(let m = MemoryLayer_set ''k2'' 2 \<lparr>ttl = None, opt_tags = Some [''b'']\<rparr> 2
              (MemoryLayer_set ''k1'' (1::nat) \<lparr>ttl = None, opt_tags = Some [''a'', ''b'']\<rparr> 1
                 (MemoryLayer_new 10 1000 LRU));
        c = \<lparr>layers = [Memory m, File (FileLayer_new False 1000)], analytics = True,
             globalStats = \<lparr>g_hits = 0, g_misses = 0, g_sets = 0, g_deletes = 0\<rparr>\<rparr>
    in distinct (map fst (cache m))
       \<and> fst (MemoryLayer_deleteByTag ''b'' m) = 2
       \<and> cache (snd (MemoryLayer_deleteByTag ''b'' m)) = []
       \<and> map_option tags (Map_get (cache (MemoryLayer_set ''k1'' 3 no_options 3 m)) ''k1'') = Some None
       \<and> fst (CacheComposer_deleteByTag ''b'' 3 c) = 2)"
  using deleteByTag_counts [of
      "MemoryLayer_set ''k2'' 2 \<lparr>ttl = None, opt_tags = Some [''b'']\<rparr> 2
              (MemoryLayer_set ''k1'' (1::nat) \<lparr>ttl = None, opt_tags = Some [''a'', ''b'']\<rparr> 1
                 (MemoryLayer_new 10 1000 LRU))"
      "''b''" "''k1''" 3 no_options 3
      "\<lparr>layers = [Memory (MemoryLayer_set ''k2'' 2 \<lparr>ttl = None, opt_tags = Some [''b'']\<rparr> 2
              (MemoryLayer_set ''k1'' (1::nat) \<lparr>ttl = None, opt_tags = Some [''a'', ''b'']\<rparr> 1
                 (MemoryLayer_new 10 1000 LRU))), File (FileLayer_new False 1000)], analytics = True,
             globalStats = \<lparr>g_hits = 0, g_misses = 0, g_sets = 0, g_deletes = 0\<rparr>\<rparr>"]
  by (simp add: layer_defs)

section \<open>Deletion\<close>

lemma CacheLayer_delete_twice:
  "fst (CacheLayer_delete key now' (snd (CacheLayer_delete key now layer))) = False"
proof (cases layer)
  case (Memory m)
  then show ?thesis
    by (simp add: CacheLayer_delete_def MemoryLayer_delete_def Let_def Map_has_delete)
next
  case (Redis r)
  then show ?thesis
    by (simp add: CacheLayer_delete_def RedisLayer_delete_def redis_live_def Map_get_delete getKey_def)
next
  case (File f)
  then show ?thesis
    by (simp add: CacheLayer_delete_def FileLayer_delete_def Map_has_delete split: option.splits)
qed

text \<open>
  C8. The composer's \<^verbatim>\<open>delete\<close> calls \<^verbatim>\<open>delete\<close> on every layer and returns
  true exactly when some layer reported a deletion. A second \<^verbatim>\<open>delete\<close> of the same
  key, with nothing set in between, returns false. No layer operation has an error
  result: a layer catches what its backend throws.
\<close>

theorem CacheComposer_delete_any:
  "fst (CacheComposer_delete key now c) = (\<exists>l\<in>set (layers c). fst (CacheLayer_delete key now l))
   \<and> layers (snd (CacheComposer_delete key now c)) = map (\<lambda>l. snd (CacheLayer_delete key now l)) (layers c)
   \<and> fst (CacheComposer_delete key now' (snd (CacheComposer_delete key now c))) = False"
  by (simp add: CacheComposer_delete_def Let_def list_ex_iff CacheLayer_delete_twice count_delete_def comp_def)

theorem CacheComposer_delete_any_witness:
  "(let c = CacheComposer_set ''k'' (1::nat) no_options 0
              \<lparr>layers = [Memory (MemoryLayer_new 10 1000 LRU), File (FileLayer_new True 1000)],
               analytics = True,
               globalStats = \<lparr>g_hits = 0, g_misses = 0, g_sets = 0, g_deletes = 0\<rparr>\<rparr>
    in fst (CacheComposer_delete ''k'' 1 c) = True
       \<and> fst (CacheComposer_delete ''k'' 2 (snd (CacheComposer_delete ''k'' 1 c))) = False
       \<and> fst (CacheComposer_delete ''other'' 1 c) = False)"
  using CacheComposer_delete_any [of "''k''" 1
      "CacheComposer_set ''k'' (1::nat) no_options 0
              \<lparr>layers = [Memory (MemoryLayer_new 10 1000 LRU), File (FileLayer_new True 1000)],
               analytics = True,
               globalStats = \<lparr>g_hits = 0, g_misses = 0, g_sets = 0, g_deletes = 0\<rparr>\<rparr>" 2]
  by (simp add: layer_defs CacheComposer_delete_def)

section \<open>Statistics\<close>

lemma get_loop_stats:
  "globalStats (fst (snd (get_loop i key now c)))
     = globalStats (if fst (get_loop i key now c) = None then count_miss c else count_hit c)
   \<and> analytics (fst (snd (get_loop i key now c))) = analytics c"
proof (induction i key now c rule: get_loop.induct)
  case (1 i key now c)
  show ?case
  proof (cases "i < length (layers c)")
    case False
    then show ?thesis by (subst (1 2 3) get_loop.simps) simp
  next
    case True
    obtain r l' where g: "CacheLayer_get key now (layers c ! i) = (r, l')"
      by (cases "CacheLayer_get key now (layers c ! i)")
    show ?thesis
    proof (cases r)
      case None
      from "1.IH" [OF True g [symmetric, unfolded None] refl] True g None
      show ?thesis
        by (subst (1 2 3) get_loop.simps) (simp add: case_prod_beta count_miss_def count_hit_def)
    next
      case (Some v)
      with True g show ?thesis
        by (subst (1 2 3) get_loop.simps) (simp add: case_prod_beta)
    qed
  qed
qed

lemma CacheComposer_get_stats:
  "analytics c \<Longrightarrow>
   g_hits (globalStats (snd (CacheComposer_get key now c)))
     = g_hits (globalStats c) + (if fst (CacheComposer_get key now c) = None then 0 else 1)
   \<and> g_misses (globalStats (snd (CacheComposer_get key now c)))
     = g_misses (globalStats c) + (if fst (CacheComposer_get key now c) = None then 1 else 0)
   \<and> analytics (snd (CacheComposer_get key now c))"
  using get_loop_stats [of 0 key now c]
  by (simp add: CacheComposer_get_alt count_hit_def count_miss_def)

lemma gets_stats:
  "analytics c \<Longrightarrow>
   g_hits (globalStats (snd (gets reqs c)))
     = g_hits (globalStats c) + length (filter (\<lambda>r. r \<noteq> None) (fst (gets reqs c)))
   \<and> g_misses (globalStats (snd (gets reqs c)))
     = g_misses (globalStats c) + length (filter (\<lambda>r. r = None) (fst (gets reqs c)))
   \<and> length (fst (gets reqs c)) = length reqs"
proof (induction reqs arbitrary: c)
  case Nil
  then show ?case by simp
next
  case (Cons p reqs)
  obtain key now where p: "p = (key, now)" by (cases p)
  let ?c' = "snd (CacheComposer_get key now c)"
  from CacheComposer_get_stats [OF Cons.prems, of key now]
  have s: "g_hits (globalStats ?c')
     = g_hits (globalStats c) + (if fst (CacheComposer_get key now c) = None then 0 else 1)"
    "g_misses (globalStats ?c')
     = g_misses (globalStats c) + (if fst (CacheComposer_get key now c) = None then 1 else 0)"
    "analytics ?c'" by simp_all
  from Cons.IH [OF s(3)] s(1,2) show ?case
    by (simp add: p case_prod_beta)
qed

text \<open>
  C9. \<^verbatim>\<open>getStats\<close> reports \<^verbatim>\<open>totalRequests = hits + misses\<close> and
  \<^verbatim>\<open>hitRate = hits / (hits + misses)\<close>, or \<open>0\<close> when there were no requests. With
  analytics enabled, after any sequence of \<^verbatim>\<open>get\<close> calls from reset counters,
  \<^verbatim>\<open>hits\<close> is the number of calls that returned a value and \<^verbatim>\<open>misses\<close> the
  number that returned \<^verbatim>\<open>null\<close>.
\<close>

theorem getStats_hitRate:
  "totalRequests (CacheComposer_getStats c) = g_hits (globalStats c) + g_misses (globalStats c)
   \<and> hitRate (CacheComposer_getStats c) =
       (if g_hits (globalStats c) + g_misses (globalStats c) > 0
        then real (g_hits (globalStats c)) / real (g_hits (globalStats c) + g_misses (globalStats c))
        else 0)
   \<and> (analytics c \<longrightarrow>
       (let found = fst (gets reqs (CacheComposer_resetStats c));
            h = length (filter (\<lambda>r. r \<noteq> None) found);
            m = length (filter (\<lambda>r. r = None) found);
            s = CacheComposer_getStats (snd (gets reqs (CacheComposer_resetStats c)))
        in cs_hits s = h \<and> cs_misses s = m \<and> totalRequests s = h + m \<and> h + m = length reqs
           \<and> hitRate s = (if h + m > 0 then real h / real (h + m) else 0)))"
proof -
  let ?c0 = "CacheComposer_resetStats c"
  let ?found = "fst (gets reqs ?c0)"
  let ?h = "length (filter (\<lambda>r. r \<noteq> None) ?found)"
  let ?m = "length (filter (\<lambda>r. r = None) ?found)"
  have hm: "?h + ?m = length ?found"
    using sum_length_filter_compl [of "\<lambda>r. r \<noteq> None" ?found] by (simp del: not_None_eq)
  have "analytics c \<Longrightarrow> analytics ?c0" "g_hits (globalStats ?c0) = 0" "g_misses (globalStats ?c0) = 0"
    by (simp_all add: CacheComposer_resetStats_def)
  with gets_stats [of ?c0 reqs] have
    g: "analytics c \<Longrightarrow> g_hits (globalStats (snd (gets reqs ?c0))) = ?h"
       "analytics c \<Longrightarrow> g_misses (globalStats (snd (gets reqs ?c0))) = ?m"
       "analytics c \<Longrightarrow> length ?found = length reqs"
    by (simp_all del: not_None_eq)
  show ?thesis
    using hm g by (simp add: CacheComposer_getStats_def Let_def del: not_None_eq)
qed

theorem getStats_hitRate_witness:
  "(let c = CacheComposer_set ''k'' (1::nat) no_options 0
              \<lparr>layers = [Memory (MemoryLayer_new 10 1000 LRU)],
               analytics = True,
               globalStats = \<lparr>g_hits = 0, g_misses = 0, g_sets = 0, g_deletes = 0\<rparr>\<rparr>;
        c' = snd (gets [(''k'', 1), (''x'', 2), (''k'', 3), (''k'', 4)] (CacheComposer_resetStats c))
    in analytics c
       \<and> fst (gets [(''k'', 1), (''x'', 2), (''k'', 3), (''k'', 4)] (CacheComposer_resetStats c))
           = [Some 1, None, Some 1, Some 1]
       \<and> cs_hits (CacheComposer_getStats c') = 3
       \<and> cs_misses (CacheComposer_getStats c') = 1
       \<and> totalRequests (CacheComposer_getStats c') = 4
       \<and> hitRate (CacheComposer_getStats c') = 3 / 4)"
  using getStats_hitRate [of
      "CacheComposer_set ''k'' (1::nat) no_options 0
              \<lparr>layers = [Memory (MemoryLayer_new 10 1000 LRU)],
               analytics = True,
               globalStats = \<lparr>g_hits = 0, g_misses = 0, g_sets = 0, g_deletes = 0\<rparr>\<rparr>"
      "[(''k'', 1), (''x'', 2), (''k'', 3), (''k'', 4)]"]
  by (simp add: layer_defs CacheComposer_get_def CacheComposer_resetStats_def CacheComposer_getStats_def
      get_loop.simps promote_loop.simps CacheLayer_name_def CacheLayer_getStats_def)

section \<open>A falsy TTL\<close>

lemma effective_ttl_falsy:
  "effective_ttl (options\<lparr>ttl := Some 0\<rparr>) d = d" "effective_ttl (options\<lparr>ttl := None\<rparr>) d = d"
  by (simp_all add: effective_ttl_def)

lemma new_entry_falsy:
  "new_entry v (options\<lparr>ttl := Some 0\<rparr>) d now = new_entry v (options\<lparr>ttl := None\<rparr>) d now"
  by (simp add: new_entry_def effective_ttl_falsy)

text \<open>
  C10. On every layer, \<^verbatim>\<open>set\<close> with \<^verbatim>\<open>options.ttl = 0\<close> does what
  \<^verbatim>\<open>set\<close> with no \<^verbatim>\<open>ttl\<close> does: the effective TTL is the layer's default, and
  the entry stored (in the memory layer always, in the file layer when the file system
  is there, in the Redis layer when the default TTL is a duration that \<^verbatim>\<open>PX\<close>
  accepts) has \<^verbatim>\<open>expiresAt = now + defaultTTL\<close>.
\<close>

theorem set_falsy_ttl_default:
  "effective_ttl (options\<lparr>ttl := Some 0\<rparr>) d = d
   \<and> effective_ttl (options\<lparr>ttl := None\<rparr>) d = d
   \<and> CacheLayer_set key v (options\<lparr>ttl := Some 0\<rparr>) now layer
       = CacheLayer_set key v (options\<lparr>ttl := None\<rparr>) now layer
   \<and> map_option expiresAt (Map_get (cache (MemoryLayer_set key v (options\<lparr>ttl := Some 0\<rparr>) now m)) key)
       = Some (now + defaultTTL m)
   \<and> (\<forall>files. fs f = Some files \<longrightarrow>
         (\<exists>files'. fs (FileLayer_set key v (options\<lparr>ttl := Some 0\<rparr>) now f) = Some files'
            \<and> map_option expiresAt (Map_get files' (hashKey key)) = Some (now + file_defaultTTL f)))
   \<and> (0 < redis_defaultTTL r \<longrightarrow>
         (\<exists>e. Map_get (client (RedisLayer_set key v (options\<lparr>ttl := Some 0\<rparr>) now r)) (getKey r key)
                 = Some (RString e (now + redis_defaultTTL r))
            \<and> expiresAt e = now + redis_defaultTTL r))"
proof (intro conjI allI impI)
  show "CacheLayer_set key v (options\<lparr>ttl := Some 0\<rparr>) now layer
       = CacheLayer_set key v (options\<lparr>ttl := None\<rparr>) now layer"
    by (cases layer)
      (simp_all add: CacheLayer_set_def MemoryLayer_set_def FileLayer_set_def RedisLayer_set_def
        new_entry_falsy effective_ttl_falsy cong: option.case_cong)
next
  fix files assume "fs f = Some files"
  then show "\<exists>files'. fs (FileLayer_set key v (options\<lparr>ttl := Some 0\<rparr>) now f) = Some files'
            \<and> map_option expiresAt (Map_get files' (hashKey key)) = Some (now + file_defaultTTL f)"
    by (simp add: FileLayer_set_def Map_get_set_same new_entry_def effective_ttl_falsy)
next
  assume "0 < redis_defaultTTL r"
  then show "\<exists>e. Map_get (client (RedisLayer_set key v (options\<lparr>ttl := Some 0\<rparr>) now r)) (getKey r key)
                 = Some (RString e (now + redis_defaultTTL r))
            \<and> expiresAt e = now + redis_defaultTTL r"
    using RedisLayer_set_stored [of "options\<lparr>ttl := Some 0\<rparr>" r key v now]
    by (simp add: effective_ttl_falsy new_entry_def)
qed (simp_all add: effective_ttl_falsy MemoryLayer_set_stored new_entry_def)

theorem set_falsy_ttl_default_witness:
  "map_option expiresAt
     (Map_get (cache (MemoryLayer_set ''k'' (1::nat) \<lparr>ttl = Some 0, opt_tags = None\<rparr> 5
                        (MemoryLayer_new 10 3600000 LRU))) ''k'') = Some 3600005
   \<and> fs (FileLayer_new True 86400000 :: nat FileLayer) = Some []
   \<and> (case fs (FileLayer_set ''k'' (1::nat) \<lparr>ttl = Some 0, opt_tags = None\<rparr> 5 (FileLayer_new True 86400000)) of
         None \<Rightarrow> None
       | Some files \<Rightarrow> map_option expiresAt (Map_get files (hashKey ''k''))) = Some 86400005
   \<and> 0 < redis_defaultTTL (RedisLayer_new [] 60000 :: nat RedisLayer)
   \<and> (case Map_get (client (RedisLayer_set ''k'' (1::nat) \<lparr>ttl = Some 0, opt_tags = None\<rparr> 5
                               (RedisLayer_new [] 60000))) ''cache:k'' of
         Some (RString e deadline) \<Rightarrow> Some (expiresAt e, deadline)
       | _ \<Rightarrow> None) = Some (60005, 60005)"
  using set_falsy_ttl_default [of "\<lparr>ttl = Some 0, opt_tags = None\<rparr>" 3600000 "''k''" "1::nat" 5
      "Memory (MemoryLayer_new 10 3600000 LRU)" "MemoryLayer_new 10 3600000 LRU"
      "FileLayer_new True 86400000" "RedisLayer_new [] 60000"]
  by (simp add: layer_defs RedisLayer_set_def RedisLayer_new_def client_set_px_def getKey_def)

end
